theory Spec2Isabelle
  imports Complex_Main "HOL-Library.Log_Nat"
begin

section \<open>Python floats as the calculator uses them\<close>

text \<open>
  \<^verbatim>\<open>flask_app.py\<close> computes with Python \<^verbatim>\<open>float\<close>s: IEEE 754 binary64 numbers. A float is
  modelled by its sign and the exact rational value of its magnitude, or it is an infinity
  or a NaN. The sign is kept apart from the magnitude because Python keeps it for zero
  (\<^verbatim>\<open>-0.0\<close> prints as \<^verbatim>\<open>-0.000\<close>). The program only multiplies, divides, raises to the
  powers \<^verbatim>\<open>2\<close> and \<^verbatim>\<open>0.25\<close>, compares, parses and prints floats; it never adds or subtracts
  them.

  In \<open>Fin s q\<close> the sign \<open>s\<close> is \<open>True\<close> for a negative number and the magnitude
  \<open>q\<close> is not negative.
\<close>

datatype pyfloat = Fin bool rat | Infinity bool | NaN

datatype error = BadRequestKeyError | ValueError | ZeroDivisionError | OverflowError

subsection \<open>Rounding to binary64\<close>

definition two_pow :: "int \<Rightarrow> rat" where
  "two_pow e = (if 0 \<le> e then 2 ^ nat e else 1 / 2 ^ nat (- e))"

text \<open>The integer \<open>k\<close> with \<open>2 ^ k \<le> q < 2 ^ (k + 1)\<close>, for \<open>q > 0\<close>.\<close>

definition flog2 :: "rat \<Rightarrow> int" where
  "flog2 q = (if 1 \<le> q then bitlen \<lfloor>q\<rfloor> - 1 else - bitlen (\<lceil>1 / q\<rceil> - 1))"

definition round_half_even :: "rat \<Rightarrow> int" where
  "round_half_even q =
     (let n = \<lfloor>q\<rfloor>; r = q - of_int n
      in if r < 1 / 2 then n
         else if 1 / 2 < r then n + 1
         else if even n then n else n + 1)"

text \<open>
  The exponent of the unit in the last place of the binary64 numbers around \<open>q\<close>: 53
  significant bits, and the fixed spacing \<open>2 ^ - 1074\<close> of the subnormal numbers below
  \<open>2 ^ - 1022\<close>.
\<close>

definition quantum :: "rat \<Rightarrow> int" where
  "quantum q = max (flog2 q) (- 1022) - 52"

definition round_mag :: "rat \<Rightarrow> rat" where
  "round_mag q =
     (if q = 0 then 0
      else let e = quantum q in of_int (round_half_even (q / two_pow e)) * two_pow e)"

text \<open>
  Round to nearest, ties to even. A magnitude that rounds to \<open>2 ^ 1024\<close> or more (the
  rounded value has a binary exponent of 1024 or more) becomes an infinity, and one that
  rounds to nothing becomes a zero of the same sign.
\<close>

definition round_float :: "bool \<Rightarrow> rat \<Rightarrow> pyfloat" where
  "round_float s q =
     (let r = round_mag q in if r \<noteq> 0 \<and> 1024 \<le> flog2 r then Infinity s else Fin s r)"

subsection \<open>Arithmetic\<close>

text \<open>\<^verbatim>\<open>float(n)\<close> of a small integer literal, and the float literals of the source.\<close>

definition float_of_int :: "int \<Rightarrow> pyfloat" where
  "float_of_int n = round_float (n < 0) (of_int \<bar>n\<bar>)"

text \<open>\<^verbatim>\<open>x * y\<close>: never raises; an overflow gives an infinity.\<close>

fun float_mul :: "pyfloat \<Rightarrow> pyfloat \<Rightarrow> pyfloat" where
  "float_mul NaN y = NaN"
| "float_mul x NaN = NaN"
| "float_mul (Infinity s) (Infinity t) = Infinity (s \<noteq> t)"
| "float_mul (Infinity s) (Fin t q) = (if q = 0 then NaN else Infinity (s \<noteq> t))"
| "float_mul (Fin s p) (Infinity t) = (if p = 0 then NaN else Infinity (s \<noteq> t))"
| "float_mul (Fin s p) (Fin t q) = round_float (s \<noteq> t) (p * q)"

text \<open>
  \<^verbatim>\<open>x / y\<close>: Python raises \<^verbatim>\<open>ZeroDivisionError\<close> whenever the divisor is a zero, whatever
  the dividend is (also for an infinite or NaN dividend).
\<close>

fun float_div :: "pyfloat \<Rightarrow> pyfloat \<Rightarrow> error + pyfloat" where
  "float_div x (Fin t q) =
     (if q = 0 then Inl ZeroDivisionError
      else case x of
          NaN \<Rightarrow> Inr NaN
        | Infinity s \<Rightarrow> Inr (Infinity (s \<noteq> t))
        | Fin s p \<Rightarrow> Inr (round_float (s \<noteq> t) (p / q)))"
| "float_div NaN y = Inr NaN"
| "float_div x NaN = Inr NaN"
| "float_div (Infinity s) (Infinity t) = Inr NaN"
| "float_div (Fin s p) (Infinity t) = Inr (Fin (s \<noteq> t) 0)"

text \<open>\<^verbatim>\<open>x < n\<close> for a float and an integer literal: exact, and false for a NaN.\<close>

fun float_lt_int :: "pyfloat \<Rightarrow> int \<Rightarrow> bool" where
  "float_lt_int NaN n = False"
| "float_lt_int (Infinity s) n = s"
| "float_lt_int (Fin s q) n = ((if s then - q else q) < of_int n)"

text \<open>The floats \<^verbatim>\<open>0.0\<close> and \<^verbatim>\<open>-0.0\<close>.\<close>

fun is_zero :: "pyfloat \<Rightarrow> bool" where
  "is_zero (Fin s q) = (q = 0)"
| "is_zero x = False"

subsection \<open>Powers\<close>

text \<open>
  The source raises floats to two constant exponents only, the integer \<^verbatim>\<open>2\<close> and the float
  \<^verbatim>\<open>0.25\<close>, so the model has one function for each. Both follow CPython's \<^verbatim>\<open>float_pow\<close>:
  a NaN base gives NaN, an infinite base gives \<^verbatim>\<open>inf\<close> (neither exponent is an odd
  integer), a zero base gives \<^verbatim>\<open>0.0\<close>, a negative base is negated for the integer exponent
  and handed to the complex power for the fractional one, the base \<^verbatim>\<open>1.0\<close> gives \<^verbatim>\<open>1.0\<close>,
  and every other base goes to the C library's \<^verbatim>\<open>pow\<close>. An infinite result of \<^verbatim>\<open>pow\<close>
  raises \<^verbatim>\<open>OverflowError\<close>; a result that underflows to zero is returned as \<^verbatim>\<open>0.0\<close>.

  The C library's \<^verbatim>\<open>pow\<close> is taken to be correctly rounded: the model returns the binary64
  number nearest to the exact square or fourth root.
\<close>

definition float_pow_2 :: "pyfloat \<Rightarrow> error + pyfloat" where
  "float_pow_2 x =
     (case x of
        NaN \<Rightarrow> Inr NaN
      | Infinity s \<Rightarrow> Inr (Infinity False)
      | Fin s q \<Rightarrow>
          if q = 0 then Inr (Fin False 0)
          else if q = 1 then Inr (Fin False 1)
          else (case round_float False (q * q) of
                  Infinity t \<Rightarrow> Inl OverflowError
                | r \<Rightarrow> Inr r))"

text \<open>
  The largest \<open>r\<close> below \<open>2 ^ (b + 1)\<close> above the start value with \<open>r ^ 4 \<le> n\<close>, found
  bit by bit from bit \<open>b\<close> down.
\<close>

primrec root4_bits :: "int \<Rightarrow> int \<Rightarrow> nat \<Rightarrow> int" where
  "root4_bits n r 0 = (if (r + 1) ^ 4 \<le> n then r + 1 else r)"
| "root4_bits n r (Suc b) =
     root4_bits n (if (r + 2 ^ Suc b) ^ 4 \<le> n then r + 2 ^ Suc b else r) b"

text \<open>
  The binary64 number nearest to the fourth root of \<open>q > 0\<close>. The root of a binary64
  number lies between \<open>2 ^ - 269\<close> and \<open>2 ^ 256\<close>, so it is a normal number with 53
  significant bits: \<open>m\<close> is the root in units of the last place, rounded down, and the
  comparison with the midpoint decides whether to round up.
\<close>

definition round_root4 :: "rat \<Rightarrow> rat" where
  "round_root4 q =
     (let u = flog2 q div 4 - 52;
          m = root4_bits \<lfloor>q / two_pow (4 * u)\<rfloor> 0 53;
          mid = (of_int m + 1 / 2) * two_pow u
      in if q < mid ^ 4 \<or> (q = mid ^ 4 \<and> even m) then of_int m * two_pow u
         else (of_int m + 1) * two_pow u)"

text \<open>
  A value of the program after the power \<^verbatim>\<open>Re ** 0.25\<close>: a float, or a complex number.
  Python answers a negative finite float raised to \<^verbatim>\<open>0.25\<close> with a complex number, which
  is never zero; dividing by it, multiplying it by floats and formatting it raise no
  exception. The model records that the value is complex and not its digits.
\<close>

datatype pynum = Flt pyfloat | Cplx

definition float_pow_025 :: "pyfloat \<Rightarrow> pynum" where
  "float_pow_025 x =
     (case x of
        NaN \<Rightarrow> Flt NaN
      | Infinity s \<Rightarrow> Flt (Infinity False)
      | Fin s q \<Rightarrow>
          if q = 0 then Flt (Fin False 0)
          else if s then Cplx
          else if q = 1 then Flt (Fin False 1)
          else Flt (Fin False (round_root4 q)))"

subsection \<open>Parsing: \<^verbatim>\<open>float(s)\<close> of a string\<close>

text \<open>
  Form values are strings of code points below 256. Python accepts surrounding white
  space (the ASCII white space and, below 256, the code points 133 and 160), one sign,
  \<^verbatim>\<open>inf\<close>, \<^verbatim>\<open>infinity\<close> and \<^verbatim>\<open>nan\<close> in any letter case, and decimal numbers with an
  optional fraction and exponent, where single underscores may stand between digits. The
  decimal value is rounded to the nearest float; a value too large becomes an infinity.
  Everything else raises \<^verbatim>\<open>ValueError\<close>, here \<open>None\<close>.
\<close>

definition is_space :: "char \<Rightarrow> bool" where
  "is_space c = ((of_char c :: int) \<in> {9, 10, 11, 12, 13, 32, 133, 160})"

definition is_digit :: "char \<Rightarrow> bool" where
  "is_digit c = (48 \<le> (of_char c :: int) \<and> (of_char c :: int) \<le> 57)"

definition digit_val :: "char \<Rightarrow> int" where
  "digit_val c = of_char c - 48"

definition int_of_digits :: "string \<Rightarrow> int" where
  "int_of_digits ds = foldl (\<lambda>n c. 10 * n + digit_val c) 0 ds"

definition lower :: "char \<Rightarrow> char" where
  "lower c = (if 65 \<le> (of_char c :: int) \<and> (of_char c :: int) \<le> 90
              then char_of ((of_char c :: int) + 32) else c)"

definition ten_pow :: "int \<Rightarrow> rat" where
  "ten_pow e = (if 0 \<le> e then 10 ^ nat e else 1 / 10 ^ nat (- e))"

text \<open>
  Underscores are dropped when each one follows a digit and is followed by a digit; the
  first argument is the previous character.
\<close>

fun strip_underscores :: "char \<Rightarrow> string \<Rightarrow> string option" where
  "strip_underscores prev [] = (if prev = CHR ''_'' then None else Some [])"
| "strip_underscores prev (c # cs) =
     (if c = CHR ''_'' then (if is_digit prev then strip_underscores c cs else None)
      else if prev = CHR ''_'' \<and> \<not> is_digit c then None
      else map_option ((#) c) (strip_underscores c cs))"

definition parse_sign :: "string \<Rightarrow> bool \<times> string" where
  "parse_sign s =
     (case s of
        [] \<Rightarrow> (False, [])
      | c # cs \<Rightarrow>
          if c = CHR ''-'' then (True, cs)
          else if c = CHR ''+'' then (False, cs)
          else (False, s))"

text \<open>What follows the digits: nothing, or \<^verbatim>\<open>e\<close> or \<^verbatim>\<open>E\<close>, an optional sign and digits.\<close>

definition parse_exponent :: "string \<Rightarrow> int option" where
  "parse_exponent s =
     (case s of
        [] \<Rightarrow> Some 0
      | c # cs \<Rightarrow>
          if c = CHR ''e'' \<or> c = CHR ''E'' then
            (case parse_sign cs of
               (neg, ds) \<Rightarrow>
                 if ds \<noteq> [] \<and> list_all is_digit ds
                 then Some (if neg then - int_of_digits ds else int_of_digits ds)
                 else None)
          else None)"

definition parse_decimal :: "bool \<Rightarrow> string \<Rightarrow> pyfloat option" where
  "parse_decimal neg r =
     (let ip = takeWhile is_digit r;
          r1 = dropWhile is_digit r;
          dot = (r1 \<noteq> [] \<and> hd r1 = CHR ''.'');
          fp = (if dot then takeWhile is_digit (tl r1) else []);
          r2 = (if dot then dropWhile is_digit (tl r1) else r1)
      in if ip = [] \<and> fp = [] then None
         else (case parse_exponent r2 of
                 None \<Rightarrow> None
               | Some e \<Rightarrow>
                   Some (round_float neg
                     (of_int (int_of_digits (ip @ fp)) * ten_pow (e - int (length fp))))))"

definition float_of_string :: "string \<Rightarrow> pyfloat option" where
  "float_of_string str =
     (case strip_underscores (CHR 0x00) str of
        None \<Rightarrow> None
      | Some t \<Rightarrow>
          (case parse_sign (rev (dropWhile is_space (rev (dropWhile is_space t)))) of
             (neg, r) \<Rightarrow>
               if map lower r = ''inf'' \<or> map lower r = ''infinity'' then Some (Infinity neg)
               else if map lower r = ''nan'' then Some NaN
               else parse_decimal neg r))"

subsection \<open>Printing: the format specification \<^verbatim>\<open>.nf\<close>\<close>

text \<open>
  Python prints the exact value of the float rounded to \<open>n\<close> decimals, ties to even, with
  a \<^verbatim>\<open>-\<close> for every negative float (also for \<^verbatim>\<open>-0.0\<close> and for a negative value that rounds
  to zero), and no decimal point when \<open>n = 0\<close>.
\<close>

definition digit_char :: "int \<Rightarrow> char" where
  "digit_char d = char_of (48 + d)"

text \<open>The decimal digits of an integer that is not negative.\<close>

function decimal :: "int \<Rightarrow> string" where
  "decimal n =
     (if n < 10 then [digit_char n] else decimal (n div 10) @ [digit_char (n mod 10)])"
  by pat_completeness auto
termination
  by (relation "measure nat") auto

declare decimal.simps [simp del]

definition pad_zeros :: "nat \<Rightarrow> string \<Rightarrow> string" where
  "pad_zeros n s = replicate (n - length s) (CHR ''0'') @ s"

definition format_f :: "nat \<Rightarrow> pyfloat \<Rightarrow> string" where
  "format_f n x =
     (case x of
        NaN \<Rightarrow> ''nan''
      | Infinity s \<Rightarrow> (if s then ''-inf'' else ''inf'')
      | Fin s q \<Rightarrow>
          (let m = round_half_even (q * 10 ^ n)
           in (if s then ''-'' else []) @ decimal (m div 10 ^ n) @
              (if n = 0 then [] else CHR ''.'' # pad_zeros n (decimal (m mod 10 ^ n)))))"

text \<open>The text of a complex number is not modelled: \<open>None\<close>.\<close>

fun format_num :: "nat \<Rightarrow> pynum \<Rightarrow> string option" where
  "format_num n (Flt x) = Some (format_f n x)"
| "format_num n Cplx = None"

subsection \<open>Arithmetic on values that may be complex\<close>

text \<open>\<^verbatim>\<open>x / z\<close>, \<^verbatim>\<open>z * x\<close>, \<^verbatim>\<open>x * z\<close> and \<^verbatim>\<open>z / x\<close> for a float \<open>x\<close>.\<close>

fun float_div_num :: "pyfloat \<Rightarrow> pynum \<Rightarrow> error + pynum" where
  "float_div_num x (Flt y) = map_sum id Flt (float_div x y)"
| "float_div_num x Cplx = Inr Cplx"

fun num_mul_float :: "pynum \<Rightarrow> pyfloat \<Rightarrow> pynum" where
  "num_mul_float (Flt x) y = Flt (float_mul x y)"
| "num_mul_float Cplx y = Cplx"

fun float_mul_num :: "pyfloat \<Rightarrow> pynum \<Rightarrow> pynum" where
  "float_mul_num x (Flt y) = Flt (float_mul x y)"
| "float_mul_num x Cplx = Cplx"

fun num_div_float :: "pynum \<Rightarrow> pyfloat \<Rightarrow> error + pynum" where
  "num_div_float (Flt x) y = map_sum id Flt (float_div x y)"
| "num_div_float Cplx (Fin t q) = (if q = 0 then Inl ZeroDivisionError else Inr Cplx)"
| "num_div_float Cplx y = Inr Cplx"

section \<open>The calculator\<close>

subsection \<open>Constants\<close>

definition g :: pyfloat where
  "g = round_float False (981 / 100)"

definition rho_water :: int where
  "rho_water = 1000"

definition mu_water :: pyfloat where
  "mu_water = round_float False (1 / 1000)"

text \<open>\<^verbatim>\<open>math.pi\<close>, the float nearest to the circle constant.\<close>

definition pi_value :: rat where
  "pi_value = 884279719003555 / 2 ^ 48"

definition math_pi :: pyfloat where
  "math_pi = Fin False pi_value"

definition laminar_warning :: string where
  "laminar_warning = ''Warning: Laminar flow (Re < 2100). Formula may not apply accurately.''"

definition parse_error_message :: string where
  "parse_error_message = ''Please enter valid numbers.''"

subsection \<open>\<^verbatim>\<open>calculate_friction_factor\<close>\<close>

definition and_then :: "error + 'a \<Rightarrow> ('a \<Rightarrow> error + 'b) \<Rightarrow> error + 'b" where
  "and_then m k = (case m of Inl e \<Rightarrow> Inl e | Inr x \<Rightarrow> k x)"

definition calculate_friction_factor :: "pyfloat \<Rightarrow> error + pynum \<times> string" where
  "calculate_friction_factor Re' =
     (let warning = (if float_lt_int Re' 2100 then laminar_warning else [])
      in and_then (float_div_num (round_float False (3164 / 10000)) (float_pow_025 Re'))
           (\<lambda>f. Inr (f, warning)))"

subsection \<open>\<^verbatim>\<open>calculator\<close>\<close>

text \<open>
  The submitted form maps a field name to its (first) value. \<^verbatim>\<open>request.form['L']\<close>
  raises \<^verbatim>\<open>BadRequestKeyError\<close> for a missing field; \<^verbatim>\<open>request.form.get('rho', rho_water)\<close>
  answers the default, which \<^verbatim>\<open>float\<close> converts.
\<close>

type_synonym form = "string \<rightharpoonup> string"

definition float_str :: "string \<Rightarrow> error + pyfloat" where
  "float_str s = (case float_of_string s of None \<Rightarrow> Inl ValueError | Some x \<Rightarrow> Inr x)"

definition form_item :: "form \<Rightarrow> string \<Rightarrow> error + string" where
  "form_item form k = (case form k of None \<Rightarrow> Inl BadRequestKeyError | Some s \<Rightarrow> Inr s)"

text \<open>Lines 23 to 27: the five fields, read and converted in this order.\<close>

definition read_inputs ::
  "form \<Rightarrow> error + pyfloat \<times> pyfloat \<times> pyfloat \<times> pyfloat \<times> pyfloat" where
  "read_inputs form =
     and_then (and_then (form_item form ''L'') float_str) (\<lambda>L.
     and_then (and_then (form_item form ''D'') float_str) (\<lambda>D.
     and_then (and_then (form_item form ''Q'') float_str) (\<lambda>Q.
     and_then (case form ''rho'' of None \<Rightarrow> Inr (float_of_int rho_water) | Some s \<Rightarrow> float_str s)
       (\<lambda>rho.
     and_then (case form ''mu'' of None \<Rightarrow> Inr mu_water | Some s \<Rightarrow> float_str s) (\<lambda>mu.
     Inr (L, D, Q, rho, mu))))))"

text \<open>
  Lines 29 to 31: the cross-sectional area, the velocity and the Reynolds number.
\<close>

definition reynolds ::
  "pyfloat \<Rightarrow> pyfloat \<Rightarrow> pyfloat \<Rightarrow> pyfloat \<Rightarrow> error + pyfloat \<times> pyfloat" where
  "reynolds D Q rho mu =
     and_then (float_div D (float_of_int 2)) (\<lambda>half_D.
     and_then (float_pow_2 half_D) (\<lambda>sq.
     and_then (float_div Q (float_mul math_pi sq)) (\<lambda>V.
     and_then (float_div (float_mul (float_mul rho V) D) mu) (\<lambda>Re'.
     Inr (V, Re')))))"

text \<open>
  Lines 29 to 34: the velocity, the Reynolds number, the friction factor, the head loss
  and the pressure drop, in the order in which Python evaluates the operations.
\<close>

definition hydraulics ::
  "pyfloat \<Rightarrow> pyfloat \<Rightarrow> pyfloat \<Rightarrow> pyfloat \<Rightarrow> pyfloat \<Rightarrow>
   error + pyfloat \<times> pyfloat \<times> pynum \<times> pynum \<times> pynum \<times> string" where
  "hydraulics L D Q rho mu =
     and_then (reynolds D Q rho mu) (\<lambda>(V, Re').
     and_then (calculate_friction_factor Re') (\<lambda>(f, warning).
     and_then (float_div L D) (\<lambda>L_by_D.
     and_then (float_pow_2 V) (\<lambda>V_sq.
     and_then (float_div V_sq (float_mul (float_of_int 2) g)) (\<lambda>head.
     Inr (V, Re', f,
          num_mul_float (num_mul_float f L_by_D) head,
          float_mul_num (float_mul rho g) (num_mul_float (num_mul_float f L_by_D) head),
          warning))))))"

text \<open>
  The \<^verbatim>\<open>results\<close> dictionary handed to the template: the six entries of a computation, or
  the one entry \<^verbatim>\<open>error\<close>. The entries \<^verbatim>\<open>f\<close>, \<^verbatim>\<open>hf\<close> and \<^verbatim>\<open>delta_P\<close> are \<open>None\<close> when the
  value printed is a complex number.
\<close>

datatype results =
    Results string string "string option" "string option" "string option" string
  | Error string

text \<open>Lines 36 to 43.\<close>

definition format_results ::
  "pyfloat \<times> pyfloat \<times> pynum \<times> pynum \<times> pynum \<times> string \<Rightarrow> error + results" where
  "format_results r =
     (case r of (V, Re', f, hf, delta_P, warning) \<Rightarrow>
        and_then (num_div_float delta_P (float_of_int 1000)) (\<lambda>kPa.
        Inr (Results
          (format_f 3 V @ '' m/s'')
          (format_f 0 Re')
          (format_num 4 f)
          (map_option (\<lambda>s. s @ '' m'') (format_num 3 hf))
          (case (format_num 0 delta_P, format_num 2 kPa) of
             (Some a, Some b) \<Rightarrow> Some (a @ '' Pa ('' @ b @ '' kPa)'')
           | _ \<Rightarrow> None)
          warning)))"

text \<open>The body of the \<^verbatim>\<open>try\<close> statement.\<close>

definition try_body :: "form \<Rightarrow> error + results" where
  "try_body form =
     and_then (read_inputs form) (\<lambda>(L, D, Q, rho, mu).
     and_then (hydraulics L D Q rho mu) format_results)"

datatype http_method = GET | POST

text \<open>
  The view function, up to the template: \<open>Inr\<close> of the \<^verbatim>\<open>results\<close> given to the template
  (\<open>None\<close> for Python's \<^verbatim>\<open>None\<close>), or \<open>Inl\<close> of the exception that leaves the function.
  Only \<^verbatim>\<open>ValueError\<close> is caught.
\<close>

definition calculator :: "http_method \<Rightarrow> form \<Rightarrow> error + results option" where
  "calculator method form =
     (if method = POST then
        (case try_body form of
           Inl ValueError \<Rightarrow> Inr (Some (Error parse_error_message))
         | Inl e \<Rightarrow> Inl e
         | Inr r \<Rightarrow> Inr (Some r))
      else Inr None)"

text \<open>
  The texts that the template puts into the page below the form, in order: nothing
  without \<^verbatim>\<open>results\<close>, the error alone when there is one, else the five values and then
  the warning when it is not empty. Markup and HTML escaping are left out.
\<close>

fun render :: "results option \<Rightarrow> string option list" where
  "render None = []"
| "render (Some (Error msg)) = (if msg \<noteq> [] then [Some msg] else [])"
| "render (Some (Results V Re' f hf delta_P warning)) =
     [Some V, Some Re', f, hf, delta_P] @ (if warning \<noteq> [] then [Some warning] else [])"

text \<open>
  The velocity as the specification words it, \<open>V = Q / (pi (D / 2)\<^sup>2)\<close>, in exact
  arithmetic, with the value of \<^verbatim>\<open>math.pi\<close> for \<open>pi\<close>.
\<close>

definition velocity_spec :: "rat \<Rightarrow> rat \<Rightarrow> rat" where
  "velocity_spec q d = q / (pi_value * (d / 2) ^ 2)"

text \<open>The required fields that are read before the field \<open>k\<close>.\<close>

definition required_before :: "string \<Rightarrow> string list" where
  "required_before k = takeWhile (\<lambda>x. x \<noteq> k) [''L'', ''D'', ''Q'']"

section \<open>Basic facts\<close>

lemma and_then_Inl [simp]: "and_then (Inl e) k = Inl e"
  by (simp add: and_then_def)

lemma and_then_Inr [simp]: "and_then (Inr x) k = k x"
  by (simp add: and_then_def)

lemma and_then_eq_Inr: "and_then m k = Inr y \<longleftrightarrow> (\<exists>x. m = Inr x \<and> k x = Inr y)"
  by (cases m) simp_all

lemma and_then_eq_Inl:
  "and_then m k = Inl e \<longleftrightarrow> m = Inl e \<or> (\<exists>x. m = Inr x \<and> k x = Inl e)"
  by (cases m) simp_all

lemma float_div_NaN_right [simp]: "float_div x NaN = Inr NaN"
  by (cases x) simp_all

lemma float_of_int_2: "float_of_int 2 = Fin False 2"
  by code_simp

lemma float_of_int_1000: "float_of_int 1000 = Fin False 1000"
  by code_simp

lemma round_mag_0 [simp]: "round_mag 0 = 0"
  by (simp add: round_mag_def)

lemma round_float_0 [simp]: "round_float s 0 = Fin s 0"
  by (simp add: round_float_def)

lemma float_div_zero [simp]: "is_zero y \<Longrightarrow> float_div x y = Inl ZeroDivisionError"
  by (cases y) simp_all

lemma float_div_outcome:
  "float_div x y = Inl ZeroDivisionError \<or> (\<exists>z. float_div x y = Inr z)"
  by (cases x; cases y) auto

lemma float_div_Inl: "float_div x y = Inl e \<longleftrightarrow> is_zero y \<and> e = ZeroDivisionError"
  by (cases x; cases y) auto

lemma float_div_no_Inr [simp]: "(\<forall>z. float_div x y \<noteq> Inr z) \<longleftrightarrow> is_zero y"
  using float_div_outcome [of x y] float_div_Inl [of x y ZeroDivisionError] by auto

lemma float_pow_2_outcome:
  "float_pow_2 x = Inl OverflowError \<or> (\<exists>z. float_pow_2 x = Inr z)"
  by (cases x) (auto simp: float_pow_2_def split: pyfloat.splits)

lemma float_pow_2_Inl: "float_pow_2 x = Inl e \<Longrightarrow> e = OverflowError"
  using float_pow_2_outcome [of x] by auto

lemma float_div_num_Inl: "float_div_num x y = Inl e \<Longrightarrow> e = ZeroDivisionError"
  by (cases y) (auto simp: float_div_Inl map_sum_def split: sum.splits)

lemma and_then_fails: "(\<And>x. \<exists>e. k x = Inl e) \<Longrightarrow> \<exists>e. and_then m k = Inl e"
  by (cases m) auto

lemma float_of_string_empty [simp]: "float_of_string [] = None"
  by (simp add: float_of_string_def parse_sign_def parse_decimal_def)

lemma float_of_string_nan [simp]: "float_of_string ''nan'' = Some NaN"
  by (simp add: float_of_string_def parse_sign_def is_digit_def is_space_def lower_def)

lemma float_of_string_abc [simp]: "float_of_string ''abc'' = None"
  by (simp add: float_of_string_def parse_sign_def parse_decimal_def is_digit_def
      is_space_def lower_def)

lemma float_str_eq_Inr: "float_str s = Inr x \<longleftrightarrow> float_of_string s = Some x"
  by (simp add: float_str_def split: option.splits)

lemma float_str_cases:
  "float_str s = Inl ValueError \<or> (\<exists>x. float_str s = Inr x)"
  by (simp add: float_str_def split: option.splits)

lemma float_str_None: "float_of_string s = None \<Longrightarrow> float_str s = Inl ValueError"
  by (simp add: float_str_def)

section \<open>Rounding\<close>

lemma two_pow_powi: "two_pow e = 2 powi e"
  by (simp add: two_pow_def power_int_def inverse_eq_divide power_one_over)

lemma two_pow_pos [simp]: "0 < two_pow e"
  by (simp add: two_pow_powi)

lemma two_pow_neq_0 [simp]: "two_pow e \<noteq> 0"
  by (simp add: two_pow_powi)

lemma two_pow_ge_0 [simp]: "0 \<le> two_pow e"
  by (simp add: two_pow_powi)

lemma two_pow_add: "two_pow (a + b) = two_pow a * two_pow b"
  by (simp add: two_pow_powi power_int_add)

lemma two_pow_diff: "two_pow (a - b) = two_pow a / two_pow b"
  by (simp add: two_pow_powi power_int_diff)

lemma two_pow_less [simp]: "two_pow a < two_pow b \<longleftrightarrow> a < b"
proof
  assume "two_pow a < two_pow b"
  show "a < b"
  proof (rule ccontr)
    assume "\<not> a < b"
    then have "b \<le> a" by simp
    then have "two_pow b \<le> two_pow a"
      unfolding two_pow_powi by (intro power_int_increasing) auto
    with \<open>two_pow a < two_pow b\<close> show False by simp
  qed
next
  assume "a < b"
  then show "two_pow a < two_pow b"
    unfolding two_pow_powi by (intro power_int_strict_increasing) auto
qed

lemma two_pow_le [simp]: "two_pow a \<le> two_pow b \<longleftrightarrow> a \<le> b"
  using two_pow_less [of b a] by (auto simp: not_less [symmetric] simp del: two_pow_less)

lemma two_pow_of_int: "0 \<le> e \<Longrightarrow> two_pow e = of_int (2 ^ nat e)"
  by (simp add: two_pow_def)

lemma two_pow_0 [simp]: "two_pow 0 = 1"
  by (simp add: two_pow_def)

lemma two_pow_1 [simp]: "two_pow 1 = 2"
  by (simp add: two_pow_def)

lemma bitlen_pos: "0 < n \<Longrightarrow> 1 \<le> bitlen n"
  using bitlen_eq_zero_iff [of n] bitlen_nonneg [of n] by linarith

lemma flog2_bounds:
  assumes "0 < q"
  shows "two_pow (flog2 q) \<le> q" and "q < two_pow (flog2 q + 1)"
proof -
  show "two_pow (flog2 q) \<le> q"
  proof (cases "1 \<le> q")
    case True
    then have n: "0 < \<lfloor>q\<rfloor>"
      by (simp add: less_floor_iff)
    from bitlen_bounds [OF n] have "(2::int) ^ nat (bitlen \<lfloor>q\<rfloor> - 1) \<le> \<lfloor>q\<rfloor>"
      by simp
    then have "(of_int (2 ^ nat (bitlen \<lfloor>q\<rfloor> - 1)) :: rat) \<le> of_int \<lfloor>q\<rfloor>"
      by (simp only: of_int_le_iff)
    also have "\<dots> \<le> q" by simp
    finally show ?thesis
      using True bitlen_pos [OF n] by (simp add: flog2_def two_pow_of_int)
  next
    case False
    with assms have q1: "1 < 1 / q" by simp
    let ?c = "\<lceil>1 / q\<rceil>"
    from q1 have c: "0 < ?c - 1"
      by (simp add: less_ceiling_iff)
    from bitlen_bounds [OF c] have "?c - 1 < 2 ^ nat (bitlen (?c - 1))"
      by simp
    then have "?c \<le> 2 ^ nat (bitlen (?c - 1))" by simp
    then have "1 / q \<le> of_int (2 ^ nat (bitlen (?c - 1)))"
      by (simp only: ceiling_le_iff)
    then have "1 / q \<le> two_pow (bitlen (?c - 1))"
      using bitlen_nonneg [of "?c - 1"] by (simp only: two_pow_of_int)
    then have "1 \<le> two_pow (bitlen (?c - 1)) * q"
      using assms by (simp add: field_simps)
    then have "two_pow (0 - bitlen (?c - 1)) \<le> q"
      unfolding two_pow_diff by (simp add: field_simps)
    then show ?thesis
      using False by (simp add: flog2_def)
  qed
  show "q < two_pow (flog2 q + 1)"
  proof (cases "1 \<le> q")
    case True
    then have n: "0 < \<lfloor>q\<rfloor>"
      by (simp add: less_floor_iff)
    from bitlen_bounds [OF n] have "\<lfloor>q\<rfloor> + 1 \<le> 2 ^ nat (bitlen \<lfloor>q\<rfloor>)"
      by simp
    then have "(of_int (\<lfloor>q\<rfloor> + 1) :: rat) \<le> of_int (2 ^ nat (bitlen \<lfloor>q\<rfloor>))"
      by (simp only: of_int_le_iff)
    moreover have "q < of_int (\<lfloor>q\<rfloor> + 1)"
      by simp linarith
    ultimately show ?thesis
      using True bitlen_nonneg [of "\<lfloor>q\<rfloor>"] by (simp add: flog2_def two_pow_of_int)
  next
    case False
    with assms have q1: "1 < 1 / q" by simp
    let ?c = "\<lceil>1 / q\<rceil>"
    let ?b = "bitlen (?c - 1)"
    from q1 have c: "0 < ?c - 1"
      by (simp add: less_ceiling_iff)
    from bitlen_pos [OF c] have b: "1 \<le> ?b" .
    from bitlen_bounds [OF c] have "2 ^ nat (?b - 1) \<le> ?c - 1"
      by simp
    then have "(of_int (2 ^ nat (?b - 1)) :: rat) \<le> of_int (?c - 1)"
      by (simp only: of_int_le_iff)
    moreover have "(of_int (?c - 1) :: rat) < 1 / q"
      using ceiling_correct [of "1 / q"] by simp
    ultimately have "two_pow (?b - 1) < 1 / q"
      using b by (simp add: two_pow_of_int)
    then have "two_pow (?b - 1) * q < 1"
      using assms by (simp add: field_simps)
    then have "q < two_pow (0 - (?b - 1))"
      unfolding two_pow_diff by (simp add: field_simps)
    then show ?thesis
      using False by (simp add: flog2_def)
  qed
qed

lemma flog2_unique:
  assumes "0 < q" and "two_pow k \<le> q" and "q < two_pow (k + 1)"
  shows "flog2 q = k"
proof -
  from flog2_bounds [OF assms(1)] assms(2,3)
  have "two_pow (flog2 q) < two_pow (k + 1)" and "two_pow k < two_pow (flog2 q + 1)"
    by linarith+
  then show ?thesis by simp
qed

lemma flog2_two_pow [simp]: "flog2 (two_pow k) = k"
  by (rule flog2_unique) simp_all

lemma round_half_even_of_int [simp]: "round_half_even (of_int n) = n"
  by (simp add: round_half_even_def)

lemma round_half_even_error: "\<bar>of_int (round_half_even x) - x\<bar> \<le> 1 / 2"
  using floor_correct [of x] by (auto simp: round_half_even_def Let_def)

lemma round_half_even_small: "0 \<le> x \<Longrightarrow> x < 1 / 2 \<Longrightarrow> round_half_even x = 0"
proof -
  assume x: "0 \<le> x" "x < 1 / 2"
  then have "\<lfloor>x\<rfloor> = 0" by (intro floor_unique) auto
  with x show ?thesis by (simp add: round_half_even_def)
qed

lemma round_half_even_ge: "of_int m \<le> x \<Longrightarrow> m \<le> round_half_even x"
proof -
  assume "of_int m \<le> x"
  then have "m \<le> \<lfloor>x\<rfloor>" by (simp add: le_floor_iff)
  then show ?thesis by (auto simp: round_half_even_def Let_def)
qed

lemma round_mag_two_pow:
  assumes "- 1074 \<le> k"
  shows "round_mag (two_pow k) = two_pow k"
proof -
  let ?e = "max k (- 1022) - 52"
  from assms have e: "0 \<le> k - ?e" by simp
  have "two_pow k / two_pow ?e = two_pow (k - ?e)"
    by (simp add: two_pow_diff)
  also have "\<dots> = of_int (2 ^ nat (k - ?e))"
    using e by (rule two_pow_of_int)
  finally have "round_half_even (two_pow k / two_pow ?e) = 2 ^ nat (k - ?e)"
    by (simp only: round_half_even_of_int)
  then have "of_int (round_half_even (two_pow k / two_pow ?e)) * two_pow ?e =
      two_pow (k - ?e) * two_pow ?e"
    by (simp only: two_pow_of_int [OF e])
  also have "\<dots> = two_pow k"
    by (simp add: two_pow_add [symmetric])
  finally show ?thesis
    by (simp add: round_mag_def quantum_def Let_def)
qed

lemma round_float_two_pow:
  "- 1074 \<le> k \<Longrightarrow> k < 1024 \<Longrightarrow> round_float s (two_pow k) = Fin s (two_pow k)"
  by (simp add: round_float_def round_mag_two_pow Let_def)

lemma round_float_two_pow_overflow:
  "1024 \<le> k \<Longrightarrow> round_float s (two_pow k) = Infinity s"
  by (simp add: round_float_def round_mag_two_pow Let_def)

lemma round_mag_tiny:
  assumes "0 < q" and "q < two_pow (- 1075)"
  shows "round_mag q = 0"
proof -
  from flog2_bounds(1) [OF assms(1)] assms(2) have "two_pow (flog2 q) < two_pow (- 1075)"
    by linarith
  then have "flog2 q < - 1075" by simp
  then have e: "quantum q = - 1074"
    by (simp add: quantum_def)
  have "q / two_pow (- 1074) < two_pow (- 1075) / two_pow (- 1074)"
    using assms(2) by (simp add: divide_strict_right_mono)
  also have "\<dots> = two_pow (- 1)"
    by (simp add: two_pow_diff [symmetric])
  also have "\<dots> = 1 / 2"
    by (simp add: two_pow_def)
  finally have "round_half_even (q / two_pow (- 1074)) = 0"
    using assms(1) by (intro round_half_even_small) simp_all
  with assms(1) e show ?thesis
    by (simp add: round_mag_def Let_def)
qed


lemma two_pow_eq [simp]: "two_pow a = two_pow b \<longleftrightarrow> a = b"
  using two_pow_le [of a b] two_pow_le [of b a] by (auto simp del: two_pow_le)

lemma round_float_tiny:
  "0 < q \<Longrightarrow> q < two_pow (- 1075) \<Longrightarrow> round_float s q = Fin s 0"
  by (simp add: round_float_def round_mag_tiny)

text \<open>The relative error of rounding in the normal range is at most \<open>2 ^ - 53\<close>.\<close>

lemma round_mag_normal:
  assumes "two_pow (- 1022) \<le> x"
  shows "\<bar>round_mag x - x\<bar> \<le> two_pow (- 53) * x"
proof -
  from assms have x: "0 < x"
    using two_pow_pos [of "- 1022"] by linarith
  let ?k = "flog2 x"
  from flog2_bounds [OF x] assms have "two_pow (- 1022) < two_pow (?k + 1)"
    by linarith
  then have k: "- 1022 \<le> ?k" by simp
  then have e: "quantum x = ?k - 52"
    by (simp add: quantum_def)
  let ?e = "?k - 52"
  let ?n = "round_half_even (x / two_pow ?e)"
  have "\<bar>of_int ?n - x / two_pow ?e\<bar> \<le> 1 / 2"
    by (rule round_half_even_error)
  then have "\<bar>of_int ?n - x / two_pow ?e\<bar> * two_pow ?e \<le> 1 / 2 * two_pow ?e"
    by (intro mult_right_mono) simp_all
  moreover have "\<bar>of_int ?n - x / two_pow ?e\<bar> * two_pow ?e = \<bar>of_int ?n * two_pow ?e - x\<bar>"
  proof -
    have "\<bar>of_int ?n - x / two_pow ?e\<bar> * two_pow ?e =
        \<bar>(of_int ?n - x / two_pow ?e) * two_pow ?e\<bar>"
      by (simp add: abs_mult)
    also have "(of_int ?n - x / two_pow ?e) * two_pow ?e = of_int ?n * two_pow ?e - x"
      by (simp add: left_diff_distrib)
    finally show ?thesis .
  qed
  moreover have "1 / 2 * two_pow ?e = two_pow (- 53) * two_pow ?k"
  proof -
    have "two_pow (- 53) * two_pow ?k = two_pow (- 53 + ?k)"
      by (simp only: two_pow_add)
    also have "- 53 + ?k = ?e - 1" by simp
    also have "two_pow (?e - 1) = two_pow ?e / 2"
      by (simp only: two_pow_diff two_pow_1)
    finally show ?thesis by simp
  qed
  moreover have "two_pow (- 53) * two_pow ?k \<le> two_pow (- 53) * x"
    using flog2_bounds(1) [OF x] by (intro mult_left_mono) simp_all
  ultimately have "\<bar>of_int ?n * two_pow ?e - x\<bar> \<le> two_pow (- 53) * x"
    by linarith
  with x e show ?thesis
    by (simp add: round_mag_def Let_def)
qed

lemma u_less_1: "two_pow (- 53) < 1"
  using two_pow_less [of "- 53" 0] by (simp del: two_pow_less)

lemma round_float_normal:
  assumes "two_pow (- 1022) \<le> x" and "x \<le> two_pow 1023"
  shows "\<exists>r. round_float s x = Fin s r \<and> (1 - two_pow (- 53)) * x \<le> r
           \<and> r \<le> (1 + two_pow (- 53)) * x"
proof -
  let ?u = "two_pow (- 53)"
  let ?r = "round_mag x"
  from assms have x: "0 < x"
    using two_pow_pos [of "- 1022"] by linarith
  from round_mag_normal [OF assms(1)]
  have lo: "(1 - ?u) * x \<le> ?r" and hi: "?r \<le> (1 + ?u) * x"
    by (simp_all add: abs_le_iff algebra_simps)
  have "0 < (1 - ?u) * x"
    using x u_less_1 by simp
  with lo have r: "0 < ?r" by linarith
  have "(1 + ?u) * x < 2 * x"
    using x u_less_1 by simp
  also have "\<dots> \<le> 2 * two_pow 1023"
    using assms(2) by simp
  also have "\<dots> = two_pow (1 + 1023)"
    by (simp only: two_pow_add two_pow_1)
  finally have "?r < two_pow 1024"
    using hi by simp
  with flog2_bounds(1) [OF r] have "two_pow (flog2 ?r) < two_pow 1024"
    by linarith
  then have "flog2 ?r < 1024" by simp
  with lo hi show ?thesis
    by (simp add: round_float_def Let_def)
qed

lemma u_le_half: "two_pow (- 53) \<le> 1 / 2"
proof -
  have "two_pow (- 53) \<le> two_pow (- 1)" by (simp only: two_pow_le)
  then show ?thesis by (simp add: two_pow_def)
qed

lemma round_float_range:
  assumes "two_pow a \<le> x" and "x \<le> two_pow b" and "- 1022 \<le> a" and "b \<le> 1023"
  shows "\<exists>r. round_float s x = Fin s r \<and> (1 - two_pow (- 53)) * x \<le> r
           \<and> r \<le> (1 + two_pow (- 53)) * x \<and> two_pow (a - 1) \<le> r \<and> r \<le> two_pow (b + 1)"
proof -
  let ?u = "two_pow (- 53)"
  have x: "0 < x"
    using assms(1) two_pow_pos [of a] by linarith
  have "two_pow (- 1022) \<le> two_pow a" and "two_pow b \<le> two_pow 1023"
    using assms(3,4) by (simp_all only: two_pow_le)
  with assms(1,2) have "two_pow (- 1022) \<le> x" and "x \<le> two_pow 1023"
    by linarith+
  from round_float_normal [OF this, of s]
  obtain r where r: "round_float s x = Fin s r" "(1 - ?u) * x \<le> r" "r \<le> (1 + ?u) * x"
    by blast
  have xu: "?u * x \<le> 1 / 2 * x"
    using x u_le_half by (intro mult_right_mono) simp_all
  have "two_pow (a - 1) = two_pow a / 2"
    by (simp only: two_pow_diff two_pow_1)
  also have "\<dots> \<le> x / 2"
    using assms(1) by simp
  also have "\<dots> \<le> (1 - ?u) * x"
    using xu by (simp add: left_diff_distrib)
  finally have lo: "two_pow (a - 1) \<le> r"
    using r(2) by linarith
  have "0 \<le> ?u * x"
    using x by simp
  with xu have "(1 + ?u) * x \<le> 2 * x"
    unfolding distrib_right by linarith
  also have "\<dots> \<le> 2 * two_pow b"
    using assms(2) by simp
  also have "\<dots> = two_pow (b + 1)"
    by (simp only: two_pow_add two_pow_1 mult.commute)
  finally have hi: "r \<le> two_pow (b + 1)"
    using r(3) by linarith
  from r lo hi show ?thesis
    by blast
qed

lemma tolerance_upper: "(1 + two_pow (- 53)) / (1 - two_pow (- 53)) ^ 4 \<le> 1 + 1 / 10 ^ 9"
  by (simp add: two_pow_def power_divide)

lemma tolerance_lower: "1 - 1 / 10 ^ 9 \<le> (1 - two_pow (- 53)) / (1 + two_pow (- 53)) ^ 4"
  by (simp add: two_pow_def power_divide)

section \<open>The laminar-flow warning\<close>



section \<open>Reading the form\<close>

lemma read_inputs_Inr:
  "read_inputs form = Inr (L, D, Q, rho, mu) \<longleftrightarrow>
     (\<exists>sL sD sQ. form ''L'' = Some sL \<and> float_of_string sL = Some L
        \<and> form ''D'' = Some sD \<and> float_of_string sD = Some D
        \<and> form ''Q'' = Some sQ \<and> float_of_string sQ = Some Q)
     \<and> (case form ''rho'' of None \<Rightarrow> rho = float_of_int rho_water
         | Some s \<Rightarrow> float_of_string s = Some rho)
     \<and> (case form ''mu'' of None \<Rightarrow> mu = mu_water
         | Some s \<Rightarrow> float_of_string s = Some mu)"
  by (auto simp: read_inputs_def and_then_eq_Inr form_item_def float_str_eq_Inr
      split: option.splits)

text \<open>
  C6. When the fields are read successfully, an absent \<^verbatim>\<open>rho\<close> stands for
  \<^verbatim>\<open>float(1000)\<close> and an absent \<^verbatim>\<open>mu\<close> for \<^verbatim>\<open>0.001\<close>, the computation runs on these
  values, and \<^verbatim>\<open>L\<close>, \<^verbatim>\<open>D\<close> and \<^verbatim>\<open>Q\<close> were all present: they have no default.
\<close>

theorem defaults_for_rho_and_mu:
  assumes "read_inputs form = Inr (L, D, Q, rho, mu)"
  shows "(form ''rho'' = None \<longrightarrow> rho = float_of_int 1000)
       \<and> (form ''mu'' = None \<longrightarrow> mu = round_float False (1 / 1000))
       \<and> form ''L'' \<noteq> None \<and> form ''D'' \<noteq> None \<and> form ''Q'' \<noteq> None
       \<and> try_body form = and_then (hydraulics L D Q rho mu) format_results"
proof -
  have "try_body form = and_then (hydraulics L D Q rho mu) format_results"
    using assms by (simp add: try_body_def)
  moreover have "form ''rho'' = None \<longrightarrow> rho = float_of_int 1000"
    and "form ''mu'' = None \<longrightarrow> mu = round_float False (1 / 1000)"
    and "form ''L'' \<noteq> None \<and> form ''D'' \<noteq> None \<and> form ''Q'' \<noteq> None"
    using assms by (auto simp: read_inputs_Inr rho_water_def mu_water_def)
  ultimately show ?thesis
    by simp
qed

theorem defaults_for_rho_and_mu_witness:
  "read_inputs [''L'' \<mapsto> ''nan'', ''D'' \<mapsto> ''nan'', ''Q'' \<mapsto> ''nan''] =
     Inr (NaN, NaN, NaN, float_of_int 1000, round_float False (1 / 1000))
   \<and> try_body [''L'' \<mapsto> ''nan'', ''D'' \<mapsto> ''nan'', ''Q'' \<mapsto> ''nan''] =
       and_then (hydraulics NaN NaN NaN (float_of_int 1000) (round_float False (1 / 1000)))
         format_results"
proof -
  have r: "read_inputs [''L'' \<mapsto> ''nan'', ''D'' \<mapsto> ''nan'', ''Q'' \<mapsto> ''nan''] =
     Inr (NaN, NaN, NaN, float_of_int 1000, round_float False (1 / 1000))"
    by (simp add: read_inputs_Inr rho_water_def mu_water_def)
  from defaults_for_rho_and_mu [OF r] r show ?thesis
    by simp
qed

section \<open>Fields that are not numbers\<close>

lemma calculator_ValueError:
  "try_body form = Inl ValueError \<Longrightarrow>
     calculator POST form = Inr (Some (Error parse_error_message))"
  by (simp add: calculator_def)

lemma read_inputs_ValueError:
  "read_inputs form = Inl ValueError \<Longrightarrow> try_body form = Inl ValueError"
  by (simp add: try_body_def)

lemma read_inputs_bad_field:
  assumes "k \<in> {''L'', ''D'', ''Q'', ''rho'', ''mu''}"
    and "form k = Some s" and "float_of_string s = None"
    and "\<forall>r \<in> set (required_before k). form r \<noteq> None"
  shows "read_inputs form = Inl ValueError"
proof -
  have bad: "float_str s = Inl ValueError"
    using assms(3) by (rule float_str_None)
  from assms(1) consider "k = ''L''" | "k = ''D''" | "k = ''Q''" | "k = ''rho''" | "k = ''mu''"
    by auto
  then show ?thesis
  proof cases
    case 1
    with assms(2) bad show ?thesis
      by (simp add: read_inputs_def form_item_def)
  next
    case 2
    with assms(4) obtain sL where "form ''L'' = Some sL"
      by (auto simp: required_before_def)
    with 2 assms(2) bad float_str_cases [of sL] show ?thesis
      by (auto simp: read_inputs_def form_item_def)
  next
    case 3
    with assms(4) obtain sL sD where "form ''L'' = Some sL" "form ''D'' = Some sD"
      by (auto simp: required_before_def)
    with 3 assms(2) bad float_str_cases [of sL] float_str_cases [of sD] show ?thesis
      by (auto simp: read_inputs_def form_item_def)
  next
    case 4
    with assms(4) obtain sL sD sQ
      where "form ''L'' = Some sL" "form ''D'' = Some sD" "form ''Q'' = Some sQ"
      by (auto simp: required_before_def)
    with 4 assms(2) bad float_str_cases [of sL] float_str_cases [of sD]
      float_str_cases [of sQ] show ?thesis
      by (auto simp: read_inputs_def form_item_def)
  next
    case 5
    with assms(4) obtain sL sD sQ
      where p: "form ''L'' = Some sL" "form ''D'' = Some sD" "form ''Q'' = Some sQ"
      by (auto simp: required_before_def)
    have rho: "(case form ''rho'' of None \<Rightarrow> Inr (float_of_int rho_water)
                | Some s \<Rightarrow> float_str s) = Inl ValueError
             \<or> (\<exists>x. (case form ''rho'' of None \<Rightarrow> Inr (float_of_int rho_water)
                | Some s \<Rightarrow> float_str s) = Inr x)"
      using float_str_cases by (cases "form ''rho''") auto
    with 5 p assms(2) bad float_str_cases [of sL] float_str_cases [of sD]
      float_str_cases [of sQ] show ?thesis
      by (auto simp: read_inputs_def form_item_def)
  qed
qed

text \<open>
  C5, as the claim states it, fails: a submission without \<^verbatim>\<open>L\<close> whose \<^verbatim>\<open>D\<close> is not a
  number leaves the view function with \<^verbatim>\<open>BadRequestKeyError\<close>, raised by
  \<^verbatim>\<open>request.form['L']\<close> before \<^verbatim>\<open>D\<close> is looked at.
\<close>

theorem parse_failure_counterexample:
  "float_of_string ''abc'' = None
   \<and> calculator POST [''D'' \<mapsto> ''abc''] = Inl BadRequestKeyError"
  by (simp add: calculator_def try_body_def read_inputs_def form_item_def)

text \<open>
  C5, amended. When a field is present and is not a number, and every required field
  read before it is present, the view function hands the template the single entry
  \<^verbatim>\<open>error\<close> with the text \<^verbatim>\<open>Please enter valid numbers.\<close>, and the page shows this text
  and nothing else: no value is computed.
\<close>

theorem parse_failure_gives_error_message:
  assumes "k \<in> {''L'', ''D'', ''Q'', ''rho'', ''mu''}"
    and "form k = Some s" and "float_of_string s = None"
    and "\<forall>r \<in> set (required_before k). form r \<noteq> None"
  shows "calculator POST form = Inr (Some (Error ''Please enter valid numbers.''))
       \<and> render (Some (Error ''Please enter valid numbers.'')) =
           [Some ''Please enter valid numbers.'']"
  using read_inputs_bad_field [OF assms]
  by (simp add: calculator_ValueError [unfolded parse_error_message_def]
      read_inputs_ValueError)

theorem parse_failure_gives_error_message_witness:
  "[''L'' \<mapsto> ''100'', ''D'' \<mapsto> ''0.1'', ''Q'' \<mapsto> ''0.01'', ''rho'' \<mapsto> ''abc''] ''rho'' = Some ''abc''
   \<and> float_of_string ''abc'' = None
   \<and> calculator POST
        [''L'' \<mapsto> ''100'', ''D'' \<mapsto> ''0.1'', ''Q'' \<mapsto> ''0.01'', ''rho'' \<mapsto> ''abc''] =
       Inr (Some (Error ''Please enter valid numbers.''))"
  using parse_failure_gives_error_message [of "''rho''"
      "[''L'' \<mapsto> ''100'', ''D'' \<mapsto> ''0.1'', ''Q'' \<mapsto> ''0.01'', ''rho'' \<mapsto> ''abc'']" "''abc''"]
  by (simp add: required_before_def)

text \<open>
  C10, as the claim states it, fails for the same reason: with \<^verbatim>\<open>rho\<close> empty and \<^verbatim>\<open>L\<close>
  missing, the outcome is \<^verbatim>\<open>BadRequestKeyError\<close> and not the parse-error result.
\<close>

theorem empty_optional_field_counterexample:
  "calculator POST [''rho'' \<mapsto> ''''] = Inl BadRequestKeyError"
  by (simp add: calculator_def try_body_def read_inputs_def form_item_def)

text \<open>
  C10, amended. The defaults stand in for a missing key only. When \<^verbatim>\<open>L\<close>, \<^verbatim>\<open>D\<close> and \<^verbatim>\<open>Q\<close>
  are present and \<^verbatim>\<open>rho\<close> or \<^verbatim>\<open>mu\<close> is present but empty, the empty string is converted,
  which fails, and the result is the parse-error message, not a computation with the
  default.
\<close>

theorem empty_optional_field_is_parse_error:
  assumes "form ''L'' \<noteq> None" and "form ''D'' \<noteq> None" and "form ''Q'' \<noteq> None"
    and "form ''rho'' = Some [] \<or> form ''mu'' = Some []"
  shows "calculator POST form = Inr (Some (Error ''Please enter valid numbers.''))"
proof -
  from assms(4) obtain k where k: "k = ''rho'' \<or> k = ''mu''" and e: "form k = Some []"
    by auto
  from k assms(1-3) have "\<forall>r \<in> set (required_before k). form r \<noteq> None"
    by (auto simp: required_before_def)
  with k e have "read_inputs form = Inl ValueError"
    by (intro read_inputs_bad_field [of k form "[]"]) auto
  then show ?thesis
    by (simp add: calculator_ValueError [unfolded parse_error_message_def]
        read_inputs_ValueError)
qed

theorem empty_optional_field_is_parse_error_witness:
  "[''L'' \<mapsto> ''100'', ''D'' \<mapsto> ''0.1'', ''Q'' \<mapsto> ''0.01'', ''rho'' \<mapsto> ''''] ''rho'' = Some []
   \<and> calculator POST [''L'' \<mapsto> ''100'', ''D'' \<mapsto> ''0.1'', ''Q'' \<mapsto> ''0.01'', ''rho'' \<mapsto> ''''] =
       Inr (Some (Error ''Please enter valid numbers.''))"
  using empty_optional_field_is_parse_error
    [of "[''L'' \<mapsto> ''100'', ''D'' \<mapsto> ''0.1'', ''Q'' \<mapsto> ''0.01'', ''rho'' \<mapsto> '''']"]
  by simp

section \<open>Failures of the computation\<close>

lemma friction_Inl: "calculate_friction_factor r = Inl e \<Longrightarrow> e = ZeroDivisionError"
  by (auto simp: calculate_friction_factor_def Let_def and_then_eq_Inl dest: float_div_num_Inl)

lemma friction_zero: "is_zero r \<Longrightarrow> calculate_friction_factor r = Inl ZeroDivisionError"
  by (cases r) (simp_all add: calculate_friction_factor_def float_pow_025_def)

lemma reynolds_Inl:
  "reynolds D Q rho mu = Inl e \<Longrightarrow> e = ZeroDivisionError \<or> e = OverflowError"
  by (auto simp: reynolds_def and_then_eq_Inl float_div_Inl dest: float_pow_2_Inl)

lemma reynolds_zero_D: "is_zero D \<Longrightarrow> reynolds D Q rho mu = Inl ZeroDivisionError"
  by (cases D) (simp_all add: reynolds_def float_of_int_2 float_pow_2_def math_pi_def)

lemma reynolds_zero_mu:
  assumes "is_zero mu"
  shows "reynolds D Q rho mu = Inl ZeroDivisionError \<or> reynolds D Q rho mu = Inl OverflowError"
proof -
  have "\<exists>e. reynolds D Q rho mu = Inl e"
    unfolding reynolds_def
    apply (rule and_then_fails)
    apply (rule and_then_fails)
    apply (rule and_then_fails)
    apply (simp add: assms)
    done
  then show ?thesis
    using reynolds_Inl by blast
qed

lemma hydraulics_Inl:
  "hydraulics L D Q rho mu = Inl e \<Longrightarrow> e = ZeroDivisionError \<or> e = OverflowError"
  by (auto simp: hydraulics_def and_then_eq_Inl float_div_Inl
      dest: float_pow_2_Inl reynolds_Inl friction_Inl)

lemma hydraulics_reynolds_Inl:
  "reynolds D Q rho mu = Inl e \<Longrightarrow> hydraulics L D Q rho mu = Inl e"
  by (simp add: hydraulics_def)

lemma hydraulics_L_Inl:
  "hydraulics L D Q rho mu = Inl e \<Longrightarrow> hydraulics L' D Q rho mu = Inl e"
  by (auto simp: hydraulics_def and_then_eq_Inl float_div_Inl and_then_eq_Inr
      dest: float_div_zero [of D L])

lemma calculator_uncaught:
  assumes "read_inputs form = Inr (L, D, Q, rho, mu)" and "hydraulics L D Q rho mu = Inl e"
  shows "calculator POST form = Inl e"
  using assms hydraulics_Inl [OF assms(2)]
  by (auto simp: calculator_def try_body_def)

lemma overflow_in_area:
  "hydraulics L (Fin False (two_pow 600)) Q rho mu = Inl OverflowError"
proof -
  have "two_pow 600 / 2 = two_pow (600 - 1)"
    by (simp only: two_pow_diff two_pow_1)
  then have h: "float_div (Fin False (two_pow 600)) (float_of_int 2) =
      Inr (Fin False (two_pow 599))"
    by (simp add: float_of_int_2 round_float_two_pow)
  have "two_pow 599 \<noteq> two_pow 0"
    by (simp only: two_pow_eq)
  moreover have "two_pow 599 * two_pow 599 = two_pow (599 + 599)"
    by (simp only: two_pow_add)
  ultimately have "float_pow_2 (Fin False (two_pow 599)) = Inl OverflowError"
    by (simp add: float_pow_2_def round_float_two_pow_overflow)
  with h have "reynolds (Fin False (two_pow 600)) Q rho mu = Inl OverflowError"
    by (simp add: reynolds_def)
  then show ?thesis
    by (rule hydraulics_reynolds_Inl)
qed

lemma underflow_in_area:
  "hydraulics L (Fin False (two_pow (- 600))) Q rho mu = Inl ZeroDivisionError"
proof -
  have "two_pow (- 600) / 2 = two_pow (- 600 - 1)"
    by (simp only: two_pow_diff two_pow_1)
  then have h: "float_div (Fin False (two_pow (- 600))) (float_of_int 2) =
      Inr (Fin False (two_pow (- 601)))"
    by (simp add: float_of_int_2 round_float_two_pow)
  have "two_pow (- 601) \<noteq> two_pow 0"
    by (simp only: two_pow_eq)
  moreover have "two_pow (- 601) * two_pow (- 601) = two_pow (- 601 + - 601)"
    by (simp only: two_pow_add)
  ultimately have "float_pow_2 (Fin False (two_pow (- 601))) = Inr (Fin False 0)"
    by (simp add: float_pow_2_def round_float_tiny)
  with h have "reynolds (Fin False (two_pow (- 600))) Q rho mu = Inl ZeroDivisionError"
    by (simp add: reynolds_def math_pi_def)
  then show ?thesis
    by (rule hydraulics_reynolds_Inl)
qed

lemma reynolds_no_flow:
  "reynolds (Fin False 1) (Fin False 0) (Fin False 1000) (Fin False 1) =
     Inr (Fin False 0, Fin False 0)"
  by code_simp




text \<open>
  C4, amended. The computation does not check signs and never raises a domain error:
  on every input, negative fields included, it returns a result or raises
  \<^verbatim>\<open>ZeroDivisionError\<close> or \<^verbatim>\<open>OverflowError\<close>, and whether it fails does not depend on \<^verbatim>\<open>L\<close>
  at all, so a negative length is never rejected.
\<close>

theorem no_domain_error:
  "((\<exists>r. hydraulics L D Q rho mu = Inr r) \<or> hydraulics L D Q rho mu = Inl ZeroDivisionError
      \<or> hydraulics L D Q rho mu = Inl OverflowError)
   \<and> isl (hydraulics L D Q rho mu) = isl (hydraulics L' D Q rho mu)"
proof
  show "(\<exists>r. hydraulics L D Q rho mu = Inr r) \<or> hydraulics L D Q rho mu = Inl ZeroDivisionError
      \<or> hydraulics L D Q rho mu = Inl OverflowError"
  proof (cases "hydraulics L D Q rho mu")
    case (Inl e)
    then show ?thesis
      using hydraulics_Inl [of L D Q rho mu e] by auto
  next
    case (Inr r)
    then show ?thesis
      by blast
  qed
  show "isl (hydraulics L D Q rho mu) = isl (hydraulics L' D Q rho mu)"
  proof (cases "hydraulics L D Q rho mu")
    case (Inl e)
    then show ?thesis
      using hydraulics_L_Inl [of L D Q rho mu e L'] by simp
  next
    case (Inr r)
    show ?thesis
    proof (cases "hydraulics L' D Q rho mu")
      case (Inl e)
      then show ?thesis
        using hydraulics_L_Inl [of L' D Q rho mu e L] Inr by simp
    next
      case r': (Inr r')
      with Inr show ?thesis by simp
    qed
  qed
qed

text \<open>
  C4, as the claim states it, fails: a negative length gives a result, with a negative
  head loss and pressure drop, and no error.
\<close>

theorem negative_length_counterexample:
  "calculator POST [''L'' \<mapsto> ''-100'', ''D'' \<mapsto> ''2'', ''Q'' \<mapsto> ''3.141592653589793'',
     ''rho'' \<mapsto> ''0.5'', ''mu'' \<mapsto> ''1''] =
   Inr (Some (Results ''1.000 m/s'' ''1'' (Some ''0.3164'') (Some ''-0.806 m'')
     (Some ''-4 Pa (-0.00 kPa)'')
     ''Warning: Laminar flow (Re < 2100). Formula may not apply accurately.''))"
  by code_simp

section \<open>The computation and its accuracy\<close>

lemma pi_value_range: "two_pow 1 \<le> pi_value" "pi_value \<le> two_pow 2"
  by (simp_all add: two_pow_def pi_value_def)

lemma and_then_assoc:
  "and_then (and_then m k) k' = and_then m (\<lambda>x. and_then (k x) k')"
  by (cases m) simp_all

lemma hydraulics_steps:
  "hydraulics L D Q rho mu =
     and_then (float_div D (float_of_int 2)) (\<lambda>half_D.
     and_then (float_pow_2 half_D) (\<lambda>A_by_pi.
     and_then (float_div Q (float_mul math_pi A_by_pi)) (\<lambda>V.
     and_then (float_div (float_mul (float_mul rho V) D) mu) (\<lambda>Re'.
     and_then (float_div_num (round_float False (3164 / 10000)) (float_pow_025 Re')) (\<lambda>f.
     and_then (float_div L D) (\<lambda>L_by_D.
     and_then (float_pow_2 V) (\<lambda>V_sq.
     and_then (float_div V_sq (float_mul (float_of_int 2) (round_float False (981 / 100))))
       (\<lambda>head.
     Inr (V, Re', f,
          num_mul_float (num_mul_float f L_by_D) head,
          float_mul_num (float_mul rho (round_float False (981 / 100)))
            (num_mul_float (num_mul_float f L_by_D) head),
          if float_lt_int Re' 2100 then laminar_warning else [])))))))))"
  by (simp add: hydraulics_def reynolds_def calculate_friction_factor_def g_def
      and_then_assoc Let_def)

lemma two_pow_mult_mono: "two_pow a \<le> x \<Longrightarrow> two_pow b \<le> y \<Longrightarrow> two_pow (a + b) \<le> x * y"
  unfolding two_pow_add by (intro mult_mono) (auto intro: order_trans [OF two_pow_ge_0])

lemma mult_two_pow_mono:
  "0 \<le> x \<Longrightarrow> 0 \<le> y \<Longrightarrow> x \<le> two_pow a \<Longrightarrow> y \<le> two_pow b \<Longrightarrow> x * y \<le> two_pow (a + b)"
  unfolding two_pow_add by (intro mult_mono) auto

lemma two_pow_div_mono:
  "two_pow a \<le> x \<Longrightarrow> 0 < y \<Longrightarrow> y \<le> two_pow b \<Longrightarrow> two_pow (a - b) \<le> x / y"
  unfolding two_pow_diff by (intro frac_le) (auto intro: order_trans [OF two_pow_ge_0])

lemma div_two_pow_mono:
  "0 \<le> x \<Longrightarrow> x \<le> two_pow a \<Longrightarrow> two_pow b \<le> y \<Longrightarrow> x / y \<le> two_pow (a - b)"
  unfolding two_pow_diff by (intro frac_le) auto

lemma velocity_chain:
  assumes d: "two_pow (- 250) \<le> d" "d \<le> two_pow 250"
    and q: "two_pow (- 250) \<le> q" "q \<le> two_pow 250"
  shows "\<exists>h s a v. float_div (Fin False d) (float_of_int 2) = Inr (Fin False h)
        \<and> float_pow_2 (Fin False h) = Inr (Fin False s)
        \<and> float_mul math_pi (Fin False s) = Fin False a
        \<and> float_div (Fin False q) (Fin False a) = Inr (Fin False v)
        \<and> \<bar>v - velocity_spec q d\<bar> \<le> velocity_spec q d / 10 ^ 9"
proof -
  define al where "al = 1 - two_pow (- 53)"
  define be where "be = 1 + two_pow (- 53)"
  have al: "0 < al" "al \<le> 1"
    using u_less_1 by (simp_all add: al_def)
  have be: "1 \<le> be" "0 < be"
    by (simp_all add: be_def add_pos_pos)
  have dpos: "0 < d" and qpos: "0 < q"
    using d(1) q(1) two_pow_pos [of "- 250"] by linarith+
  \<comment> \<open>half the diameter\<close>
  have "two_pow (- 250 - 1) \<le> d / 2" and "d / 2 \<le> two_pow (250 - 1)"
    using d unfolding two_pow_diff two_pow_1 by simp_all
  then have "two_pow (- 251) \<le> d / 2" and "d / 2 \<le> two_pow 249"
    by simp_all
  from round_float_range [OF this, of False]
  obtain h where h: "round_float False (d / 2) = Fin False h"
    and hb: "al * (d / 2) \<le> h" "h \<le> be * (d / 2)"
    and hr: "two_pow (- 252) \<le> h" "h \<le> two_pow 250"
    by (auto simp: al_def be_def)
  have step1: "float_div (Fin False d) (float_of_int 2) = Inr (Fin False h)"
    by (simp add: float_of_int_2 h)
  have hpos: "0 < h"
    using hr(1) two_pow_pos [of "- 252"] by linarith
  \<comment> \<open>its square\<close>
  have hh: "two_pow (- 504) \<le> h * h" "h * h \<le> two_pow 500"
    using two_pow_mult_mono [OF hr(1) hr(1)] mult_two_pow_mono [OF _ _ hr(2) hr(2)] hpos
    by simp_all
  have "\<exists>s. float_pow_2 (Fin False h) = Inr (Fin False s) \<and> al * (h * h) \<le> s
          \<and> s \<le> be * (h * h) \<and> two_pow (- 505) \<le> s \<and> s \<le> two_pow 501"
  proof (cases "h = 1")
    case True
    have "two_pow (- 505) \<le> two_pow 0" and "two_pow 0 \<le> two_pow 501"
      by (simp_all only: two_pow_le)
    with True al be show ?thesis
      by (simp add: float_pow_2_def)
  next
    case False
    from round_float_range [OF hh, of False]
    obtain r where "round_float False (h * h) = Fin False r"
      and "al * (h * h) \<le> r" "r \<le> be * (h * h)" "two_pow (- 505) \<le> r" "r \<le> two_pow 501"
      by (auto simp: al_def be_def)
    with False hpos show ?thesis
      by (simp add: float_pow_2_def)
  qed
  then obtain s where step2: "float_pow_2 (Fin False h) = Inr (Fin False s)"
    and sb: "al * (h * h) \<le> s" "s \<le> be * (h * h)"
    and sr: "two_pow (- 505) \<le> s" "s \<le> two_pow 501"
    by blast
  have spos: "0 < s"
    using sr(1) two_pow_pos [of "- 505"] by linarith
  \<comment> \<open>the area\<close>
  have ps: "two_pow (- 504) \<le> pi_value * s" "pi_value * s \<le> two_pow 503"
    using two_pow_mult_mono [OF pi_value_range(1) sr(1)]
      mult_two_pow_mono [OF _ _ pi_value_range(2) sr(2)] spos pi_value_range(1)
      two_pow_pos [of 1]
    by simp_all
  from round_float_range [OF ps, of False]
  obtain a where a: "round_float False (pi_value * s) = Fin False a"
    and ab: "al * (pi_value * s) \<le> a" "a \<le> be * (pi_value * s)"
    and ar: "two_pow (- 505) \<le> a" "a \<le> two_pow 504"
    by (auto simp: al_def be_def)
  have step3: "float_mul math_pi (Fin False s) = Fin False a"
    by (simp add: math_pi_def a)
  have apos: "0 < a"
    using ar(1) two_pow_pos [of "- 505"] by linarith
  \<comment> \<open>the velocity\<close>
  have qa: "two_pow (- 754) \<le> q / a" "q / a \<le> two_pow 755"
    using two_pow_div_mono [OF q(1) apos ar(2)] div_two_pow_mono [OF _ q(2) ar(1)] qpos
    by simp_all
  from round_float_range [OF qa, of False]
  obtain v where v: "round_float False (q / a) = Fin False v"
    and vb: "al * (q / a) \<le> v" "v \<le> be * (q / a)"
    by (auto simp: al_def be_def)
  have step4: "float_div (Fin False q) (Fin False a) = Inr (Fin False v)"
    using apos by (simp add: v)
  \<comment> \<open>the accuracy\<close>
  define Y where "Y = pi_value * (d / 2) ^ 2"
  have pipos: "0 < pi_value"
    using pi_value_range(1) two_pow_pos [of 1] by linarith
  have Ypos: "0 < Y"
    using pipos dpos by (simp add: Y_def)
  have X: "velocity_spec q d = q / Y"
    by (simp add: velocity_spec_def Y_def)
  have Xpos: "0 < q / Y"
    using qpos Ypos by simp
  have "h * h \<le> (be * (d / 2)) * (be * (d / 2))"
    using hb(2) hpos by (intro mult_mono) simp_all
  then have "be * (h * h) \<le> be * ((be * (d / 2)) * (be * (d / 2)))"
    using be by (intro mult_left_mono) simp_all
  with sb(2) have "s \<le> be * ((be * (d / 2)) * (be * (d / 2)))"
    by linarith
  then have "be * (pi_value * s) \<le> be * (pi_value * (be * ((be * (d / 2)) * (be * (d / 2)))))"
    using be pipos by (intro mult_left_mono) simp_all
  with ab(2) have "a \<le> be * (pi_value * (be * ((be * (d / 2)) * (be * (d / 2)))))"
    by linarith
  also have "\<dots> = be ^ 4 * Y"
    by (simp add: Y_def power2_eq_square power4_eq_xxxx)
  finally have a_hi: "a \<le> be ^ 4 * Y" .
  have "(al * (d / 2)) * (al * (d / 2)) \<le> h * h"
    using hb(1) al dpos hpos by (intro mult_mono) simp_all
  then have "al * ((al * (d / 2)) * (al * (d / 2))) \<le> al * (h * h)"
    using al by (intro mult_left_mono) simp_all
  with sb(1) have "al * ((al * (d / 2)) * (al * (d / 2))) \<le> s"
    by linarith
  then have "al * (pi_value * (al * ((al * (d / 2)) * (al * (d / 2))))) \<le> al * (pi_value * s)"
    using al pipos by (intro mult_left_mono) simp_all
  with ab(1) have "al * (pi_value * (al * ((al * (d / 2)) * (al * (d / 2))))) \<le> a"
    by linarith
  moreover have "al * (pi_value * (al * ((al * (d / 2)) * (al * (d / 2))))) = al ^ 4 * Y"
    by (simp add: Y_def power2_eq_square power4_eq_xxxx)
  ultimately have a_lo: "al ^ 4 * Y \<le> a"
    by simp
  have al4: "0 < al ^ 4 * Y" and be4: "0 < be ^ 4 * Y"
    using al be Ypos by simp_all
  have "q / a \<le> q / (al ^ 4 * Y)"
    using a_lo al4 qpos by (intro divide_left_mono) simp_all
  then have "be * (q / a) \<le> be * (q / (al ^ 4 * Y))"
    using be by (intro mult_left_mono) simp_all
  also have "\<dots> = (be / al ^ 4) * (q / Y)"
    by simp
  also have "\<dots> \<le> (1 + 1 / 10 ^ 9) * (q / Y)"
    using tolerance_upper Xpos unfolding al_def be_def by (intro mult_right_mono) simp_all
  finally have v_hi: "v \<le> (1 + 1 / 10 ^ 9) * (q / Y)"
    using vb(2) by linarith
  have "q / (be ^ 4 * Y) \<le> q / a"
    using a_hi apos qpos by (intro divide_left_mono) simp_all
  then have "al * (q / (be ^ 4 * Y)) \<le> al * (q / a)"
    using al by (intro mult_left_mono) simp_all
  moreover have "al * (q / (be ^ 4 * Y)) = (al / be ^ 4) * (q / Y)"
    by simp
  moreover have "(1 - 1 / 10 ^ 9) * (q / Y) \<le> (al / be ^ 4) * (q / Y)"
    using tolerance_lower Xpos unfolding al_def be_def by (intro mult_right_mono) simp_all
  ultimately have v_lo: "(1 - 1 / 10 ^ 9) * (q / Y) \<le> v"
    using vb(1) by linarith
  have "\<bar>v - q / Y\<bar> \<le> (q / Y) / 10 ^ 9"
    using v_lo v_hi by (simp add: abs_le_iff left_diff_distrib distrib_right)
  with step1 step2 step3 step4 X show ?thesis
    by auto
qed




section \<open>The results\<close>

lemma calculator_Results:
  "calculator POST form = Inr (Some (Results a b c d e w)) \<longleftrightarrow>
     try_body form = Inr (Results a b c d e w)"
  by (auto simp: calculator_def split: sum.splits error.splits)


lemma try_body_special_values:
  "try_body [''L'' \<mapsto> ''nan'', ''D'' \<mapsto> ''inf'', ''Q'' \<mapsto> ''-inf''] =
     Inr (Results ''nan m/s'' ''nan'' (Some ''nan'') (Some ''nan m'')
       (Some ''nan Pa (nan kPa)'') [])"
  by code_simp


section \<open>Special values\<close>

text \<open>
  C9. \<^verbatim>\<open>float\<close> accepts \<^verbatim>\<open>nan\<close>, \<^verbatim>\<open>inf\<close> and \<^verbatim>\<open>-inf\<close>, and a submission with such fields
  gets a results block that shows \<^verbatim>\<open>nan\<close>, not the parse-error message.
\<close>

theorem nan_and_inf_are_accepted:
  "float_of_string ''nan'' = Some NaN
   \<and> float_of_string ''inf'' = Some (Infinity False)
   \<and> float_of_string ''-inf'' = Some (Infinity True)
   \<and> calculator POST [''L'' \<mapsto> ''nan'', ''D'' \<mapsto> ''inf'', ''Q'' \<mapsto> ''-inf''] =
       Inr (Some (Results ''nan m/s'' ''nan'' (Some ''nan'') (Some ''nan m'')
         (Some ''nan Pa (nan kPa)'') []))
   \<and> render (Some (Results ''nan m/s'' ''nan'' (Some ''nan'') (Some ''nan m'')
         (Some ''nan Pa (nan kPa)'') [])) =
       [Some ''nan m/s'', Some ''nan'', Some ''nan'', Some ''nan m'', Some ''nan Pa (nan kPa)'']"
  by code_simp

section \<open>The round trip between the head loss and the pressure drop\<close>

subsection \<open>Parsing a printed float\<close>

lemma of_char_digit_char: "0 \<le> d \<Longrightarrow> d < 10 \<Longrightarrow> (of_char (digit_char d) :: int) = 48 + d"
  by (simp add: digit_char_def)

lemma is_digit_digit_char: "0 \<le> d \<Longrightarrow> d < 10 \<Longrightarrow> is_digit (digit_char d)"
  by (simp add: is_digit_def of_char_digit_char)

lemma digit_val_digit_char: "0 \<le> d \<Longrightarrow> d < 10 \<Longrightarrow> digit_val (digit_char d) = d"
  by (simp add: digit_val_def of_char_digit_char)

lemma is_digit_not_special:
  assumes "is_digit c"
  shows "c \<noteq> CHR ''_''" "c \<noteq> CHR ''.''" "c \<noteq> CHR ''-''" "c \<noteq> CHR ''+''"
    "c \<noteq> CHR ''i''" "c \<noteq> CHR ''n''" "\<not> is_space c" "lower c = c"
  using assms by (auto simp: is_digit_def is_space_def lower_def)

lemma not_digit_dot: "\<not> is_digit (CHR ''.'')"
  by (simp add: is_digit_def)

lemma int_of_digits_Nil [simp]: "int_of_digits [] = 0"
  by (simp add: int_of_digits_def)

lemma int_of_digits_snoc: "int_of_digits (xs @ [c]) = 10 * int_of_digits xs + digit_val c"
  by (simp add: int_of_digits_def)

lemma int_of_digits_append:
  "int_of_digits (xs @ ys) = int_of_digits xs * 10 ^ length ys + int_of_digits ys"
proof (induction ys rule: rev_induct)
  case Nil
  then show ?case by simp
next
  case (snoc c ys)
  have "int_of_digits (xs @ ys @ [c]) = 10 * int_of_digits (xs @ ys) + digit_val c"
    using int_of_digits_snoc [of "xs @ ys" c] by simp
  with snoc show ?case
    by (simp add: int_of_digits_snoc algebra_simps)
qed

lemma decimal_digits: "0 \<le> n \<Longrightarrow> list_all is_digit (decimal n)"
proof (induction n rule: decimal.induct)
  case (1 n)
  show ?case
  proof (cases "n < 10")
    case True
    with 1(2) show ?thesis
      by (simp add: decimal.simps [of n] is_digit_digit_char)
  next
    case False
    with 1 have "list_all is_digit (decimal (n div 10))"
      by simp
    with False 1(2) show ?thesis
      by (simp add: decimal.simps [of n] is_digit_digit_char)
  qed
qed

lemma decimal_not_Nil [simp]: "decimal n \<noteq> []"
  by (simp add: decimal.simps [of n])

lemma int_of_digits_decimal: "0 \<le> n \<Longrightarrow> int_of_digits (decimal n) = n"
proof (induction n rule: decimal.induct)
  case (1 n)
  show ?case
  proof (cases "n < 10")
    case True
    with 1(2) show ?thesis
      using int_of_digits_snoc [of "[]" "digit_char n"]
      by (simp add: decimal.simps [of n] digit_val_digit_char)
  next
    case False
    with 1 have "int_of_digits (decimal (n div 10)) = n div 10"
      by simp
    with False 1(2) show ?thesis
      by (simp add: decimal.simps [of n] int_of_digits_snoc digit_val_digit_char)
  qed
qed

lemma length_decimal: "0 \<le> n \<Longrightarrow> n < 10 ^ k \<Longrightarrow> 0 < k \<Longrightarrow> length (decimal n) \<le> k"
proof (induction n arbitrary: k rule: decimal.induct)
  case (1 n)
  show ?case
  proof (cases "n < 10")
    case True
    with 1(4) show ?thesis
      by (simp add: decimal.simps [of n])
  next
    case False
    from 1(4) obtain j where k: "k = Suc j"
      by (cases k) auto
    with 1(3) False have j: "0 < j"
      by (cases j) auto
    from 1(3) k have "n div 10 < 10 ^ j"
      by simp
    with 1(1) [OF False _ this j] 1(2) have "length (decimal (n div 10)) \<le> j"
      by simp
    with False k show ?thesis
      by (simp add: decimal.simps [of n])
  qed
qed

lemma int_of_digits_zeros [simp]: "int_of_digits (replicate k (CHR ''0'')) = 0"
  by (induction k) (simp_all add: int_of_digits_def digit_val_def)

lemma pad_zeros_facts:
  assumes "0 \<le> n" and "n < 10 ^ k" and "0 < k"
  shows "length (pad_zeros k (decimal n)) = k"
    and "list_all is_digit (pad_zeros k (decimal n))"
    and "int_of_digits (pad_zeros k (decimal n)) = n"
proof -
  from length_decimal [OF assms] show "length (pad_zeros k (decimal n)) = k"
    by (simp add: pad_zeros_def)
  have "is_digit (CHR ''0'')"
    by (simp add: is_digit_def)
  with decimal_digits [OF assms(1)] show "list_all is_digit (pad_zeros k (decimal n))"
    by (auto simp: pad_zeros_def list_all_iff)
  show "int_of_digits (pad_zeros k (decimal n)) = n"
    by (simp add: pad_zeros_def int_of_digits_append int_of_digits_decimal [OF assms(1)])
qed

lemma strip_underscores_none:
  "list_all (\<lambda>c. c \<noteq> CHR ''_'') str \<Longrightarrow> prev \<noteq> CHR ''_'' \<Longrightarrow>
     strip_underscores prev str = Some str"
  by (induction str arbitrary: prev) simp_all


lemma format_f_parts:
  assumes "0 \<le> q" and "0 < n"
  shows "\<exists>ip fr. format_f n (Fin s q) = (if s then ''-'' else []) @ ip @ CHR ''.'' # fr
      \<and> ip \<noteq> [] \<and> list_all is_digit ip \<and> list_all is_digit fr \<and> length fr = n
      \<and> int_of_digits (ip @ fr) = round_half_even (q * 10 ^ n)"
proof -
  let ?m = "round_half_even (q * 10 ^ n)"
  have "(0::rat) \<le> q * 10 ^ n"
    using assms(1) by simp
  then have "of_int 0 \<le> q * 10 ^ n" by simp
  then have m: "0 \<le> ?m"
    by (rule round_half_even_ge)
  have ip: "0 \<le> ?m div 10 ^ n"
    using m by (simp add: pos_imp_zdiv_nonneg_iff)
  have fp: "0 \<le> ?m mod 10 ^ n" "?m mod 10 ^ n < 10 ^ n"
    by simp_all
  note pz = pad_zeros_facts [OF fp assms(2)]
  have "int_of_digits (decimal (?m div 10 ^ n) @ pad_zeros n (decimal (?m mod 10 ^ n))) = ?m"
    using div_mult_mod_eq [of ?m "10 ^ n"]
    by (simp add: int_of_digits_append pz int_of_digits_decimal [OF ip])
  moreover have "format_f n (Fin s q) = (if s then ''-'' else []) @
      decimal (?m div 10 ^ n) @ CHR ''.'' # pad_zeros n (decimal (?m mod 10 ^ n))"
    using assms(2) by (simp add: format_f_def Let_def)
  ultimately show ?thesis
    using decimal_digits [OF ip] pz decimal_not_Nil by blast
qed

lemma dropWhile_id: "xs \<noteq> [] \<Longrightarrow> \<not> P (hd xs) \<Longrightarrow> dropWhile P xs = xs"
  by (cases xs) simp_all

lemma float_of_string_format_f:
  assumes "0 \<le> q" and "0 < n"
  shows "float_of_string (format_f n (Fin s q)) =
           Some (round_float s (of_int (round_half_even (q * 10 ^ n)) / 10 ^ n))"
proof -
  from format_f_parts [OF assms, of s] obtain ip fr
    where f: "format_f n (Fin s q) = (if s then ''-'' else []) @ ip @ CHR ''.'' # fr"
      and ip: "ip \<noteq> []" "list_all is_digit ip"
      and fr: "list_all is_digit fr" "length fr = n"
      and v: "int_of_digits (ip @ fr) = round_half_even (q * 10 ^ n)"
    by blast
  let ?body = "ip @ CHR ''.'' # fr"
  let ?str = "(if s then ''-'' else []) @ ?body"
  from ip obtain c cs where c: "ip = c # cs" "is_digit c"
    by (cases ip) auto
  have nu: "list_all (\<lambda>c. c \<noteq> CHR ''_'') ?str"
    using ip(2) fr(1) by (auto simp: list_all_iff dest: is_digit_not_special(1))
  have su: "strip_underscores (CHR 0x00) ?str = Some ?str"
    using nu by (rule strip_underscores_none) simp
  have l: "dropWhile is_space ?str = ?str"
    using c is_digit_not_special(7) [OF c(2)] by (simp add: is_space_def)
  have last_digit: "is_digit (last ?str)"
  proof (cases fr)
    case Nil
    with fr(2) assms(2) show ?thesis by simp
  next
    case (Cons a as)
    then have "last ?str = last fr" by simp
    moreover have "last fr \<in> set fr"
      using Cons by (intro last_in_set) simp
    ultimately show ?thesis
      using fr(1) by (simp add: list_all_iff)
  qed
  have "rev ?str \<noteq> []" by simp
  moreover have "\<not> is_space (last ?str)"
    using last_digit by (rule is_digit_not_special(7))
  then have "\<not> is_space (hd (rev ?str))"
    by (simp only: hd_rev not_False_eq_True)
  ultimately have r: "dropWhile is_space (rev ?str) = rev ?str"
    by (rule dropWhile_id)
  have ps: "parse_sign ?str = (s, ?body)"
    using c is_digit_not_special(3,4) [OF c(2)] by (simp add: parse_sign_def)
  have lw: "hd (map lower ?body) = c"
    using c is_digit_not_special(8) [OF c(2)] by simp
  have ni: "map lower ?body \<noteq> ''inf''" "map lower ?body \<noteq> ''infinity''"
    "map lower ?body \<noteq> ''nan''"
    using lw is_digit_not_special(5,6) [OF c(2)] by auto
  have tw: "takeWhile is_digit ?body = ip" "dropWhile is_digit ?body = CHR ''.'' # fr"
    using ip(2) by (simp_all add: takeWhile_append2 dropWhile_append2 list_all_iff not_digit_dot)
  have tf: "takeWhile is_digit fr = fr" "dropWhile is_digit fr = []"
    using fr(1) by (simp_all add: list_all_iff)
  have pd: "parse_decimal s ?body =
      Some (round_float s (of_int (int_of_digits (ip @ fr)) * ten_pow (0 - int (length fr))))"
    using ip(1) by (simp add: parse_decimal_def tw tf parse_exponent_def Let_def)
  have "ten_pow (0 - int n) = 1 / 10 ^ n"
    using assms(2) by (simp add: ten_pow_def)
  with pd v fr(2) have "parse_decimal s ?body =
      Some (round_float s (of_int (round_half_even (q * 10 ^ n)) / 10 ^ n))"
    by simp
  with su l r ps ni f show ?thesis
    by (simp add: float_of_string_def)
qed

subsection \<open>The error of the recomputed pressure drop\<close>

lemma round_mag_quantum_error:
  assumes "0 < x"
  shows "\<bar>round_mag x - x\<bar> \<le> two_pow (quantum x - 1)"
proof -
  let ?e = "quantum x"
  let ?n = "round_half_even (x / two_pow ?e)"
  have "\<bar>of_int ?n - x / two_pow ?e\<bar> \<le> 1 / 2"
    by (rule round_half_even_error)
  then have "\<bar>of_int ?n - x / two_pow ?e\<bar> * two_pow ?e \<le> 1 / 2 * two_pow ?e"
    by (intro mult_right_mono) simp_all
  moreover have "\<bar>of_int ?n - x / two_pow ?e\<bar> * two_pow ?e = \<bar>of_int ?n * two_pow ?e - x\<bar>"
  proof -
    have "\<bar>of_int ?n - x / two_pow ?e\<bar> * two_pow ?e =
        \<bar>(of_int ?n - x / two_pow ?e) * two_pow ?e\<bar>"
      by (simp add: abs_mult)
    also have "(of_int ?n - x / two_pow ?e) * two_pow ?e = of_int ?n * two_pow ?e - x"
      by (simp add: left_diff_distrib)
    finally show ?thesis .
  qed
  moreover have "1 / 2 * two_pow ?e = two_pow (?e - 1)"
    by (simp only: two_pow_diff two_pow_1)
  ultimately have "\<bar>of_int ?n * two_pow ?e - x\<bar> \<le> two_pow (?e - 1)"
    by linarith
  with assms show ?thesis
    by (simp add: round_mag_def Let_def)
qed

lemma round_mag_error:
  assumes "0 \<le> x"
  shows "\<bar>round_mag x - x\<bar> \<le> two_pow (- 53) * x + two_pow (- 1075)"
proof (cases "x = 0")
  case True
  then show ?thesis by simp
next
  case False
  with assms have x: "0 < x" by simp
  show ?thesis
  proof (cases "two_pow (- 1022) \<le> x")
    case True
    from round_mag_normal [OF True] two_pow_ge_0 [of "- 1075"] show ?thesis
      by linarith
  next
    case False
    with flog2_bounds(1) [OF x] have "two_pow (flog2 x) < two_pow (- 1022)"
      by linarith
    then have "flog2 x < - 1022" by simp
    then have "quantum x - 1 = - 1075"
      by (simp add: quantum_def)
    with round_mag_quantum_error [OF x] have "\<bar>round_mag x - x\<bar> \<le> two_pow (- 1075)"
      by simp
    moreover have "0 \<le> two_pow (- 53) * x"
      using x by simp
    ultimately show ?thesis
      by linarith
  qed
qed

lemma round_float_Fin: "round_float s x = Fin t r \<Longrightarrow> t = s \<and> r = round_mag x"
  by (simp add: round_float_def Let_def split: if_splits)

lemma u_value: "two_pow (- 53) = 1 / 9007199254740992"
  by (simp add: two_pow_def)

lemma tiny_value: "two_pow (- 1075) \<le> 1 / (2 * 10 ^ 15)"
proof -
  have "two_pow (- 1075) \<le> two_pow (- 51)"
    by (simp only: two_pow_le)
  also have "two_pow (- 51) \<le> 1 / (2 * 10 ^ 15)"
    by (simp add: two_pow_def)
  finally show ?thesis .
qed

lemma thousandths_normal:
  assumes "0 \<le> m"
  shows "\<bar>round_mag (of_int m / 1000) - of_int m / 1000\<bar> \<le> two_pow (- 53) * (of_int m / 1000)"
proof (cases "m = 0")
  case True
  then show ?thesis by simp
next
  case False
  with assms have "1 \<le> m" by simp
  then have "(1::rat) \<le> of_int m" by simp
  then have "(1::rat) / 1000 \<le> of_int m / 1000" by simp
  moreover have "two_pow (- 1022) \<le> two_pow (- 10)"
    by (simp only: two_pow_le)
  moreover have "two_pow (- 10) \<le> 1 / 1000"
    by (simp add: two_pow_def)
  ultimately have "two_pow (- 1022) \<le> of_int m / 1000"
    by linarith
  then show ?thesis
    by (rule round_mag_normal)
qed

lemma recomputed_bound:
  assumes c: "0 \<le> c" and q: "0 \<le> q"
    and P: "P = round_mag (c * q)"
    and r: "r = round_mag (of_int (round_half_even (q * 1000)) / 1000)"
    and P': "P' = round_mag (c * r)"
  shows "\<bar>P' - P\<bar> \<le> c / 2000 + (c * q + c + 1) / 10 ^ 15"
proof -
  let ?m = "round_half_even (q * 1000)"
  define y where "y = (of_int ?m :: rat) / 1000"
  have "of_int 0 \<le> q * 1000" using q by simp
  then have m: "0 \<le> ?m" by (rule round_half_even_ge)
  then have y0: "0 \<le> y" by (simp add: y_def)
  have "\<bar>of_int ?m - q * 1000\<bar> \<le> 1 / 2"
    by (rule round_half_even_error)
  then have yq: "\<bar>y - q\<bar> \<le> 1 / 2000"
    by (simp add: y_def abs_le_iff field_simps)
  from thousandths_normal [OF m] have ry: "\<bar>r - y\<bar> \<le> 1 / 9007199254740992 * y"
    by (simp add: r y_def u_value)
  note ry1 = abs_le_D1 [OF ry] and ry2 = abs_le_D2 [OF ry]
  note yq1 = abs_le_D1 [OF yq] and yq2 = abs_le_D2 [OF yq]
  have r0: "0 \<le> r"
    using ry2 y0 by linarith
  define A where "A = c * q"
  define B where "B = c * r"
  define C where "C = c * y"
  have A0: "0 \<le> A" and B0: "0 \<le> B" and C0: "0 \<le> C"
    using c q r0 y0 by (simp_all add: A_def B_def C_def)
  have "r \<le> 2 * y"
    using ry1 y0 by linarith
  from mult_left_mono [OF this c] have BC: "B \<le> 2 * C"
    by (simp add: B_def C_def)
  have "y \<le> q + 1 / 2000"
    using yq1 by linarith
  from mult_left_mono [OF this c] have CA: "C \<le> A + c / 2000"
    by (simp add: A_def C_def distrib_left)
  have "r - q \<le> 1 / 9007199254740992 * y + 1 / 2000"
    using ry1 yq1 by linarith
  from mult_left_mono [OF this c] have d1: "B - A \<le> 1 / 9007199254740992 * C + c / 2000"
    by (simp add: A_def B_def C_def algebra_simps)
  have "q - r \<le> 1 / 9007199254740992 * y + 1 / 2000"
    using ry2 yq2 by linarith
  from mult_left_mono [OF this c] have d2: "A - B \<le> 1 / 9007199254740992 * C + c / 2000"
    by (simp add: A_def B_def C_def algebra_simps)
  from round_mag_error [of "c * q"] c q
  have e1: "\<bar>P - A\<bar> \<le> 1 / 9007199254740992 * A + two_pow (- 1075)"
    by (simp add: P A_def u_value)
  from round_mag_error [of "c * r"] c r0
  have e2: "\<bar>P' - B\<bar> \<le> 1 / 9007199254740992 * B + two_pow (- 1075)"
    by (simp add: P' B_def u_value)
  note e = abs_le_D1 [OF e1] abs_le_D2 [OF e1] abs_le_D1 [OF e2] abs_le_D2 [OF e2]
  have u1: "1 / 9007199254740992 * B + 1 / 9007199254740992 * C + 1 / 9007199254740992 * A
      \<le> 4 / 9007199254740992 * A + 3 / 9007199254740992 * (c / 2000)"
    using BC CA by linarith
  have u2: "4 / 9007199254740992 * A + 3 / 9007199254740992 * (c / 2000) \<le> (A + c) / 10 ^ 15"
    using A0 c by simp
  have u3: "2 * two_pow (- 1075) \<le> 1 / 10 ^ 15"
    using tiny_value by simp
  have "P' - P \<le> (1 / 9007199254740992 * B + 1 / 9007199254740992 * C
      + 1 / 9007199254740992 * A) + c / 2000 + 2 * two_pow (- 1075)"
    using e(2,3) d1 by linarith
  with u1 u2 u3 have "P' - P \<le> c / 2000 + ((A + c) / 10 ^ 15 + 1 / 10 ^ 15)"
    by linarith
  then have "P' - P \<le> c / 2000 + (A + c + 1) / 10 ^ 15"
    by (simp add: add_divide_distrib)
  moreover have "- (P' - P) \<le> (1 / 9007199254740992 * B + 1 / 9007199254740992 * C
      + 1 / 9007199254740992 * A) + c / 2000 + 2 * two_pow (- 1075)"
    using e(1,4) d2 by linarith
  with u1 u2 u3 have "- (P' - P) \<le> c / 2000 + ((A + c) / 10 ^ 15 + 1 / 10 ^ 15)"
    by linarith
  then have "- (P' - P) \<le> c / 2000 + (A + c + 1) / 10 ^ 15"
    by (simp add: add_divide_distrib)
  ultimately have "\<bar>P' - P\<bar> \<le> c / 2000 + (A + c + 1) / 10 ^ 15"
    by (rule abs_leI)
  then show ?thesis
    by (simp add: A_def)
qed




end
